theory Spec2Isabelle
  imports Main "HOL-Library.Word"
begin

unbundle bit_operations_syntax

section \<open>JavaScript primitives used by the codec\<close>

text \<open>
  The codec (\<^verbatim>\<open>pixCodec.js\<close>) works on JavaScript strings and numbers. A JavaScript
  string is a sequence of 16-bit code units, so a string is a list of \<^typ>\<open>16 word\<close>;
  \<open>str\<close> writes one from its characters. The numbers that the decoder computes with
  (positions and lengths) are integers or \<open>NaN\<close>.
\<close>

type_synonym code_unit = "16 word"

type_synonym jsstring = "code_unit list"

definition str :: "string \<Rightarrow> jsstring" where
  "str s = map of_char s"

datatype number = NaN | Num int

fun number_less :: "number \<Rightarrow> number \<Rightarrow> bool" where
  "number_less (Num a) (Num b) = (a < b)"
| "number_less _ _ = False"

fun number_plus :: "number \<Rightarrow> number \<Rightarrow> number" where
  "number_plus (Num a) (Num b) = Num (a + b)"
| "number_plus _ _ = NaN"

fun ToIntegerOrInfinity :: "number \<Rightarrow> int" where
  "ToIntegerOrInfinity NaN = 0"
| "ToIntegerOrInfinity (Num i) = i"

definition digit_char :: "nat \<Rightarrow> code_unit" where
  "digit_char d = of_char (''0123456789abcdefghijklmnopqrstuvwxyz'' ! d)"

function digits_of :: "nat \<Rightarrow> nat \<Rightarrow> jsstring" where
  "digits_of radix n =
     (if n < radix \<or> radix < 2 then [digit_char n]
      else digits_of radix (n div radix) @ [digit_char (n mod radix)])"
  by pat_completeness auto
termination
  by (relation "measure snd") auto

declare digits_of.simps [simp del]

text \<open>\<^verbatim>\<open>Number.prototype.toString(radix)\<close> on an integer.\<close>

definition int_toString :: "nat \<Rightarrow> int \<Rightarrow> jsstring" where
  "int_toString radix i =
     (if i < 0 then of_char CHR ''-'' # digits_of radix (nat (- i)) else digits_of radix (nat i))"

fun number_toString :: "number \<Rightarrow> jsstring" where
  "number_toString NaN = str ''NaN''"
| "number_toString (Num i) = int_toString 10 i"

definition padStart :: "jsstring \<Rightarrow> nat \<Rightarrow> code_unit \<Rightarrow> jsstring" where
  "padStart s n c = replicate (n - length s) c @ s"

text \<open>
  \<^verbatim>\<open>String.prototype.toUpperCase\<close>. On a string of ASCII characters it maps the letters
  a to z to A to Z. On any other string it is the Unicode case conversion, whose tables
  are the platform's and not the repository's: that conversion is the parameter
  \<open>unicode_upper\<close>, and every theorem holds whatever it is.
\<close>

definition is_ascii :: "code_unit \<Rightarrow> bool" where
  "is_ascii c = (unat c < 128)"

definition ascii_upper :: "code_unit \<Rightarrow> code_unit" where
  "ascii_upper c = (if 97 \<le> unat c \<and> unat c \<le> 122 then c - 32 else c)"

definition toUpperCase_ascii :: "jsstring \<Rightarrow> jsstring" where
  "toUpperCase_ascii s = map ascii_upper s"

definition toUpperCase :: "(jsstring \<Rightarrow> jsstring) \<Rightarrow> jsstring \<Rightarrow> jsstring" where
  "toUpperCase unicode_upper s =
     (if list_all is_ascii s then toUpperCase_ascii s else unicode_upper s)"

text \<open>
  \<^verbatim>\<open>String.prototype.substr(start, length)\<close>: a negative start counts from the end,
  the length is clamped between 0 and the size, \<open>NaN\<close> converts to 0.
\<close>

definition substr :: "jsstring \<Rightarrow> number \<Rightarrow> number \<Rightarrow> jsstring" where
  "substr s start len =
     (let size = int (length s);
          intStart = ToIntegerOrInfinity start;
          intStart = (if intStart < 0 then max (size + intStart) 0 else min intStart size);
          intLength = max 0 (min (ToIntegerOrInfinity len) size);
          intEnd = min (intStart + intLength) size
      in take (nat (intEnd - intStart)) (drop (nat intStart) s))"

text \<open>\<^verbatim>\<open>String.prototype.slice(start, end)\<close>; \<open>None\<close> is an omitted end.\<close>

definition slice :: "jsstring \<Rightarrow> int \<Rightarrow> int option \<Rightarrow> jsstring" where
  "slice s start fin =
     (let len = int (length s);
          from = (if start < 0 then max (len + start) 0 else min start len);
          intEnd = (case fin of None \<Rightarrow> len | Some e \<Rightarrow> e);
          to = (if intEnd < 0 then max (len + intEnd) 0 else min intEnd len)
      in take (nat (to - from)) (drop (nat from) s))"

text \<open>
  White space for \<^verbatim>\<open>parseInt\<close>, \<^verbatim>\<open>parseFloat\<close> and \<^verbatim>\<open>\s\<close>: tab, line feed, vertical
  tab, form feed, carriage return, space, no-break space, U+1680, U+2000 to U+200A,
  U+2028, U+2029, U+202F, U+205F, U+3000 and U+FEFF.
\<close>

definition is_whitespace :: "code_unit \<Rightarrow> bool" where
  "is_whitespace c =
     (unat c \<in> {9, 10, 11, 12, 13, 32, 160, 5760, 8232, 8233, 8239, 8287, 12288, 65279}
      \<or> (8192 \<le> unat c \<and> unat c \<le> 8202))"

definition is_digit :: "code_unit \<Rightarrow> bool" where
  "is_digit c = (48 \<le> unat c \<and> unat c \<le> 57)"

definition digits_value :: "jsstring \<Rightarrow> nat" where
  "digits_value ds = foldl (\<lambda>a c. 10 * a + (unat c - 48)) 0 ds"

text \<open>
  \<^verbatim>\<open>parseInt(string, 10)\<close>: leading white space is skipped, a sign is accepted, the
  longest prefix of decimal digits is read, and no digit at all gives \<open>NaN\<close>.
\<close>

definition parseInt :: "jsstring \<Rightarrow> number" where
  "parseInt inputString =
     (let S = dropWhile is_whitespace inputString;
          sign = (if S \<noteq> [] \<and> hd S = of_char CHR ''-'' then - 1 else 1);
          S = (if S \<noteq> [] \<and> (hd S = of_char CHR ''+'' \<or> hd S = of_char CHR ''-'') then tl S else S);
          Z = takeWhile is_digit S
      in if Z = [] then NaN else Num (sign * int (digits_value Z)))"

section \<open>CRC16\<close>

text \<open>
  \<^verbatim>\<open>calculateCRC16\<close>. JavaScript's bitwise operators work on 32-bit integers, so the
  register is a \<^typ>\<open>32 word\<close>; \<open>crc_bits\<close> is the inner loop over \<open>j\<close>, \<open>crc_chars\<close>
  the outer loop over the characters, where \<^verbatim>\<open>charCodeAt(i) << 8\<close> is the whole 16-bit
  code unit shifted into bits 8 to 23. The digits of \<^verbatim>\<open>toString(16)\<close> are ASCII, where
  \<^verbatim>\<open>toUpperCase\<close> is \<open>toUpperCase_ascii\<close>.
\<close>

definition polynomial :: "32 word" where
  "polynomial = 0x1021"

fun crc_bits :: "nat \<Rightarrow> 32 word \<Rightarrow> 32 word" where
  "crc_bits 0 crc = crc"
| "crc_bits (Suc j) crc =
     crc_bits j ((if crc AND 0x8000 \<noteq> 0 then push_bit 1 crc XOR polynomial
                  else push_bit 1 crc) AND 0xffff)"

fun crc_chars :: "jsstring \<Rightarrow> 32 word \<Rightarrow> 32 word" where
  "crc_chars [] crc = crc"
| "crc_chars (c # cs) crc = crc_chars cs (crc_bits 8 (crc XOR push_bit 8 (ucast c)))"

definition calculateCRC16 :: "jsstring \<Rightarrow> jsstring" where
  "calculateCRC16 data =
     padStart (toUpperCase_ascii (int_toString 16 (sint (crc_chars data 0xffff)))) 4 (of_char CHR ''0'')"

text \<open>
  The algorithm as the specification words it: CRC-16/CCITT-FALSE on a 16-bit register
  over bytes, and the result as four upper-case hexadecimal digits. The byte that a
  character contributes is the low byte of its code unit, which is the character itself
  for the code units up to 255.
\<close>

definition ccitt_shift :: "16 word \<Rightarrow> 16 word" where
  "ccitt_shift r = (if bit r 15 then push_bit 1 r XOR 0x1021 else push_bit 1 r)"

definition ccitt_byte :: "16 word \<Rightarrow> 8 word \<Rightarrow> 16 word" where
  "ccitt_byte r b = (ccitt_shift ^^ 8) (r XOR push_bit 8 (ucast b))"

definition crc16_ccitt_false :: "8 word list \<Rightarrow> 16 word" where
  "crc16_ccitt_false bs = foldl ccitt_byte 0xFFFF bs"

definition low_byte :: "code_unit \<Rightarrow> 8 word" where
  "low_byte c = ucast c"

definition upper_hex_digit :: "nat \<Rightarrow> code_unit" where
  "upper_hex_digit d = of_char (''0123456789ABCDEF'' ! d)"

definition hex4 :: "16 word \<Rightarrow> jsstring" where
  "hex4 w = [upper_hex_digit (unat w div 4096), upper_hex_digit (unat w div 256 mod 16),
             upper_hex_digit (unat w div 16 mod 16), upper_hex_digit (unat w mod 16)]"

definition is_upper_hex :: "code_unit \<Rightarrow> bool" where
  "is_upper_hex c = (c \<in> set (str ''0123456789ABCDEF''))"

section \<open>Fields and the field encoder\<close>

text \<open>
  A field object \<^verbatim>\<open>{id, description, length, value}\<close>; the value is a string or an
  array of fields. The decoder's objects carry no description until \<open>decode\<close>
  annotates them.
\<close>

datatype field = Field (fid: jsstring) (fdescription: "jsstring option") (flength: jsstring) (fvalue: pvalue)
and pvalue = Str jsstring | Arr "field list"

text \<open>A PIX data object: its properties by name (the codec reads and writes \<^verbatim>\<open>value\<close>).\<close>

type_synonym pix_data = "string \<rightharpoonup> pvalue"

datatype error = Error jsstring

definition formatLength :: "number \<Rightarrow> nat \<Rightarrow> jsstring" where
  "formatLength v len = padStart (number_toString v) len (of_char CHR ''0'')"

function encodeField :: "jsstring \<Rightarrow> pvalue \<Rightarrow> jsstring" where
  "encodeField i (Arr subFields) =
     (let nestedData = concat (map (\<lambda>subField.
            if fid subField \<noteq> [] then
              (let subValue = (case fvalue subField of
                                 Arr vs \<Rightarrow> concat (map (\<lambda>v. encodeField (fid v) (fvalue v)) vs)
                               | Str s \<Rightarrow> s);
                   subLength = formatLength (Num (int (length subValue))) 2
               in fid subField @ subLength @ subValue)
            else []) subFields);
          len = formatLength (Num (int (length nestedData))) 2
      in i @ len @ nestedData)"
| "encodeField i (Str v) = (let len = formatLength (Num (int (length v))) 2 in i @ len @ v)"
  by pat_completeness auto
termination
proof (relation "measure (\<lambda>(i, v). size v)", goal_cases)
  case 1
  show ?case by simp
next
  case (2 i subFields x x2 xa)
  have a: "size (fvalue f) < size f" for f :: field by (cases f) simp
  have "size (fvalue xa) < size xa" by (rule a)
  also have "size xa \<le> size_list size x2" using 2 by (simp add: size_list_estimation')
  also have "size_list size x2 < size (fvalue x)" using 2 by simp
  also have "size (fvalue x) < size x" by (rule a)
  also have "size x \<le> size_list size subFields" using 2 by (simp add: size_list_estimation')
  finally show ?case by simp
qed

section \<open>The field decoder\<close>

text \<open>
  \<^verbatim>\<open>decodeFields\<close>: the \<^verbatim>\<open>while\<close> loop with its state (position, fields) as arguments.
  Nothing in the source bounds the loop, so the model is a partial function: \<open>None\<close>
  is a scan that never returns.
\<close>

partial_function (option) decodeFields_loop :: "jsstring \<Rightarrow> number \<Rightarrow> field list \<Rightarrow> field list option" where
  "decodeFields_loop pixString position fields =
     (if number_less position (Num (int (length pixString) - 4)) then
        (let i = substr pixString position (Num 2);
             len = parseInt (substr pixString (number_plus position (Num 2)) (Num 2));
             v = substr pixString (number_plus position (Num 4)) len
         in if i \<in> set [str ''26'', str ''62''] then
              Option.bind (decodeFields_loop v (Num 0) [])
                (\<lambda>nested. decodeFields_loop pixString (number_plus position (number_plus (Num 4) len))
                   (fields @ [Field i None (padStart (number_toString len) 2 (of_char CHR ''0'')) (Arr nested)]))
            else decodeFields_loop pixString (number_plus position (number_plus (Num 4) len))
                   (fields @ [Field i None (padStart (number_toString len) 2 (of_char CHR ''0'')) (Str v)]))
      else Some (if number_less position (Num (int (length pixString)))
                 then fields @ [Field (str ''63'') None (str ''04'')
                                  (Str (substr pixString (number_plus position (Num 4)) (Num 4)))]
                 else fields))"

declare decodeFields_loop.simps [code]

definition decodeFields :: "jsstring \<Rightarrow> field list option" where
  "decodeFields pixString = decodeFields_loop pixString (Num 0) []"

section \<open>encode and decode\<close>

definition encode :: "pix_data option \<Rightarrow> error + jsstring" where
  "encode pixData =
     (case pixData of
        None \<Rightarrow> Inl (Error (str ''Invalid PIX data format. Expected object with value array.''))
      | Some d \<Rightarrow>
          (case d ''value'' of
             Some (Arr fields) \<Rightarrow>
               (let fieldsWithoutCRC = filter (\<lambda>f. fid f \<noteq> str ''63'') fields;
                    pixString = concat (map (\<lambda>f. if fid f \<noteq> [] then encodeField (fid f) (fvalue f) else [])
                                          fieldsWithoutCRC);
                    pixString = pixString @ str ''6304'';
                    crc = calculateCRC16 pixString
                in Inr (pixString @ crc))
           | _ \<Rightarrow> Inl (Error (str ''Invalid PIX data format. Expected object with value array.''))))"

definition descriptionsMap :: "jsstring \<rightharpoonup> jsstring" where
  "descriptionsMap = map_of
     [(str ''00'', str ''Payload Format Indicator''),
      (str ''26'', str ''Merchant Account Information''),
      (str ''52'', str ''Merchant Category Code (MCC)''),
      (str ''53'', str ''Transaction Currency''),
      (str ''54'', str ''Transaction Amount''),
      (str ''58'', str ''Country Code''),
      (str ''59'', str ''Merchant Name''),
      (str ''60'', str ''Merchant City''),
      (str ''62'', str ''Additional Data Field Template''),
      (str ''63'', str ''CRC16 - result's 4 nibbles'')]"

definition describe_subField :: "jsstring \<Rightarrow> field \<Rightarrow> field" where
  "describe_subField parent subField =
     (case subField of Field i d l v \<Rightarrow>
        if parent = str ''26'' then
          (let d = (if i = str ''00'' then Some (str ''GUI'') else d);
               d = (if i = str ''01'' then Some (str ''Key'') else d)
           in Field i d l v)
        else if parent = str ''62'' then
          (let d = (if i = str ''05'' then Some (str ''Transaction ID'') else d);
               d = (if i = str ''50'' then Some (str ''Payment system specific template'') else d)
           in Field i d l v)
        else Field i d l v)"

definition describe_field :: "field \<Rightarrow> field" where
  "describe_field f =
     (case f of Field i d l v \<Rightarrow>
        (let d = (case descriptionsMap i of Some label \<Rightarrow> Some label | None \<Rightarrow> d)
         in case v of
              Arr subs \<Rightarrow> Field i d l (Arr (map (describe_subField i) subs))
            | Str s \<Rightarrow> Field i d l (Str s)))"

definition invalid_crc :: "jsstring \<Rightarrow> jsstring \<Rightarrow> error" where
  "invalid_crc calculatedCRC providedCRC =
     Error ((str ''Invalid CRC. Expected: '') @ calculatedCRC @ (str '', Got: '') @ providedCRC)"

definition invalid_pix_string :: error where
  "invalid_pix_string = Error (str ''Invalid PIX string. Expected non-empty string.'')"

text \<open>\<open>decode\<close>; \<open>None\<close> when the field scan never returns.\<close>

definition decode :: "jsstring \<Rightarrow> (error + pix_data) option" where
  "decode pixString =
     (if pixString = [] then Some (Inl invalid_pix_string)
      else
        let dataWithoutCRC = slice pixString 0 (Some (- 4));
            providedCRC = slice pixString (- 4) None;
            calculatedCRC = calculateCRC16 dataWithoutCRC
        in if providedCRC \<noteq> calculatedCRC then Some (Inl (invalid_crc calculatedCRC providedCRC))
           else Option.bind (decodeFields pixString)
                  (\<lambda>fields. Some (Inr [''value'' \<mapsto> Arr (map describe_field fields)])))"

section \<open>Amounts: parseFloat and toFixed\<close>

text \<open>
  \<^verbatim>\<open>parseFloat(amount).toFixed(2)\<close> goes through an IEEE 754 double. A double is its
  sign, and for a finite value a mantissa \<open>m\<close> and an exponent \<open>e\<close> of value
  \<open>m * 2 ^ e\<close>, computed here in exact integer arithmetic: the decimal literal is
  rounded to the nearest double, ties to even.
\<close>

datatype float = FNaN | FInfinity bool | Finite bool nat int

fun bitlen :: "nat \<Rightarrow> nat" where
  "bitlen n = (if n = 0 then 0 else Suc (bitlen (n div 2)))"

declare bitlen.simps [simp del]

text \<open>The largest \<open>e\<close> with \<open>2 ^ e \<le> num / den\<close>.\<close>

definition floor_log2 :: "nat \<Rightarrow> nat \<Rightarrow> int" where
  "floor_log2 num den =
     (let e0 = int (bitlen num) - int (bitlen den)
      in if (if 0 \<le> e0 then den * 2 ^ nat e0 \<le> num else den \<le> num * 2 ^ nat (- e0))
         then e0 else e0 - 1)"

definition round_half_even :: "nat \<Rightarrow> nat \<Rightarrow> nat" where
  "round_half_even a b =
     (let q = a div b; r = a mod b
      in if 2 * r < b then q else if b < 2 * r then q + 1 else if even q then q else q + 1)"

text \<open>The double nearest to \<open>num / den\<close>, with 53 bits of mantissa and exponents from -1022 to 1023.\<close>

definition round_to_double :: "bool \<Rightarrow> nat \<Rightarrow> nat \<Rightarrow> float" where
  "round_to_double neg num den =
     (if num = 0 then Finite neg 0 0
      else
        let e = max (floor_log2 num den) (- 1022);
            shift = e - 52;
            n = (if 0 \<le> shift then round_half_even num (den * 2 ^ nat shift)
                 else round_half_even (num * 2 ^ nat (- shift)) den)
        in if n = 0 then Finite neg 0 0
           else if n = 2 ^ 53 then (if e + 1 > 1023 then FInfinity neg else Finite neg (2 ^ 52) (shift + 1))
           else if e > 1023 then FInfinity neg
           else Finite neg n shift)"

definition starts_with :: "jsstring \<Rightarrow> jsstring \<Rightarrow> bool" where
  "starts_with p s = (take (length p) s = p)"

definition parse_exponent :: "jsstring \<Rightarrow> int" where
  "parse_exponent s =
     (if s \<noteq> [] \<and> (hd s = of_char CHR ''e'' \<or> hd s = of_char CHR ''E'') then
        (let t = tl s;
             neg = (t \<noteq> [] \<and> hd t = of_char CHR ''-'');
             t = (if t \<noteq> [] \<and> (hd t = of_char CHR ''+'' \<or> hd t = of_char CHR ''-'') then tl t else t);
             ds = takeWhile is_digit t
         in if ds = [] then 0 else if neg then - int (digits_value ds) else int (digits_value ds))
      else 0)"

text \<open>
  \<^verbatim>\<open>parseFloat\<close>: leading white space is skipped and the longest prefix that is a
  decimal literal (sign, \<^verbatim>\<open>Infinity\<close>, digits, fraction, exponent) is read; none gives \<open>NaN\<close>.
\<close>

definition parseFloat :: "jsstring \<Rightarrow> float" where
  "parseFloat inputString =
     (let trimmed = dropWhile is_whitespace inputString;
          neg = (trimmed \<noteq> [] \<and> hd trimmed = of_char CHR ''-'');
          body = (if trimmed \<noteq> [] \<and> (hd trimmed = of_char CHR ''+'' \<or> hd trimmed = of_char CHR ''-'')
                  then tl trimmed else trimmed)
      in if starts_with (str ''Infinity'') body then FInfinity neg
         else
           let ipart = takeWhile is_digit body;
               rest = dropWhile is_digit body;
               has_dot = (rest \<noteq> [] \<and> hd rest = of_char CHR ''.'');
               fpart = (if has_dot then takeWhile is_digit (tl rest) else []);
               rest = (if has_dot then dropWhile is_digit (tl rest) else rest)
           in if ipart = [] \<and> fpart = [] then FNaN
              else
                let dexp = parse_exponent rest - int (length fpart);
                    N = digits_value (ipart @ fpart)
                in if 0 \<le> dexp then round_to_double neg (N * 10 ^ nat dexp) 1
                   else round_to_double neg N (10 ^ nat (- dexp)))"

text \<open>
  \<^verbatim>\<open>Number::toString\<close> for a finite value \<open>X\<close> of at least \<open>10 ^ 21\<close> (an integer):
  the shortest digit string \<open>s\<close> of \<open>k\<close> digits with \<open>s * 10 ^ (n - k)\<close> rounding to
  \<open>X\<close>, in exponential notation.
\<close>

definition shortest_candidates :: "nat \<Rightarrow> nat \<Rightarrow> nat \<Rightarrow> (nat \<times> nat) list" where
  "shortest_candidates X d k =
     (let lo = X div 10 ^ (d - k);
          c1 = (lo, d);
          c2 = (if lo + 1 < 10 ^ k then (lo + 1, d) else (10 ^ (k - 1), d + 1))
      in filter (\<lambda>(s, n). round_to_double False (s * 10 ^ (n - k)) 1 = round_to_double False X 1)
           [c1, c2])"

definition closest :: "nat \<Rightarrow> nat \<Rightarrow> (nat \<times> nat) list \<Rightarrow> (nat \<times> nat)" where
  "closest X k cs =
     (case cs of
        [c] \<Rightarrow> c
      | [(s1, n1), (s2, n2)] \<Rightarrow>
          (let d1 = X - s1 * 10 ^ (n1 - k); d2 = s2 * 10 ^ (n2 - k) - X
           in if d1 < d2 then (s1, n1) else if d2 < d1 then (s2, n2)
              else if even s1 then (s1, n1) else (s2, n2))
      | _ \<Rightarrow> (X, k))"

definition large_toString :: "nat \<Rightarrow> jsstring" where
  "large_toString X =
     (let d = length (digits_of 10 X);
          k = (case find (\<lambda>k. shortest_candidates X d k \<noteq> []) [1..<Suc d] of
                 Some k \<Rightarrow> k | None \<Rightarrow> d);
          (s, n) = closest X k (shortest_candidates X d k);
          ds = digits_of 10 s;
          e = digits_of 10 (n - 1)
      in if k = 1 then ds @ (str ''e+'') @ e else hd ds # (str ''.'') @ tl ds @ (str ''e+'') @ e)"

text \<open>\<^verbatim>\<open>Number.prototype.toFixed(f)\<close>.\<close>

definition toFixed :: "float \<Rightarrow> nat \<Rightarrow> jsstring" where
  "toFixed x f =
     (case x of
        FNaN \<Rightarrow> (str ''NaN'')
      | FInfinity neg \<Rightarrow> (if neg then (str ''-Infinity'') else (str ''Infinity''))
      | Finite neg m e \<Rightarrow>
          if (if 0 \<le> e then 10 ^ 21 \<le> m * 2 ^ nat e else 10 ^ 21 * 2 ^ nat (- e) \<le> m)
          then (if neg then (str ''-'') else []) @ large_toString (m * 2 ^ nat e)
          else
            let s = (if neg \<and> m \<noteq> 0 then (str ''-'') else []);
                n = (if 0 \<le> e then m * 2 ^ nat e * 10 ^ f
                     else (2 * m * 10 ^ f + 2 ^ nat (- e)) div (2 * 2 ^ nat (- e)));
                m = digits_of 10 n;
                m = (if f \<noteq> 0 \<and> length m \<le> f then replicate (f + 1 - length m) (of_char CHR ''0'') @ m else m)
            in if f \<noteq> 0 then s @ take (length m - f) m @ (str ''.'') @ drop (length m - f) m else s @ m)"

section \<open>createPayment\<close>

record params =
  key :: "jsstring option"
  merchantName :: "jsstring option"
  merchantCity :: "jsstring option"
  amount :: "jsstring option"
  transactionId :: "jsstring option"
  description :: "jsstring option"

text \<open>A parameter is truthy when it is given and not the empty string.\<close>

definition truthy :: "jsstring option \<Rightarrow> bool" where
  "truthy v = (case v of None \<Rightarrow> False | Some s \<Rightarrow> s \<noteq> [])"

text \<open>\<^verbatim>\<open>Array.prototype.splice(start, 0, item)\<close>: insertion, a negative start counts from the end.\<close>

definition splice_insert :: "'a list \<Rightarrow> int \<Rightarrow> 'a \<Rightarrow> 'a list" where
  "splice_insert xs start item =
     (let len = int (length xs);
          k = nat (if start < 0 then max (len + start) 0 else min start len)
      in take k xs @ [item] @ drop k xs)"

definition additionalData :: "params \<Rightarrow> field" where
  "additionalData p =
     Field (str ''62'') (Some (str ''Additional Data Field Template'')) (str ''variable'')
       (Arr ((if truthy (transactionId p)
              then [Field (str ''05'') (Some (str ''Transaction ID'')) (str ''variable'') (Str (the (transactionId p)))]
              else [])
             @ (if truthy (description p)
                then [Field (str ''02'') (Some (str ''Description'')) (str ''variable'') (Str (the (description p)))]
                else [])
             @ [Field (str ''50'') (Some (str ''Payment system specific template'')) (str ''variable'')
                  (Arr [Field (str ''00'') (Some (str ''GUI'')) (str ''17'') (Str (str ''BR.GOV.BCB.BRCODE'')),
                        Field (str ''01'') (Some (str ''version'')) (str ''05'') (Str (str ''1.0.0''))])]))"

definition createPayment :: "(jsstring \<Rightarrow> jsstring) \<Rightarrow> params \<Rightarrow> error + pix_data" where
  "createPayment unicode_upper p =
     (if \<not> truthy (key p) \<or> \<not> truthy (merchantName p) \<or> \<not> truthy (merchantCity p) then
        Inl (Error (str ''Missing required parameters: key, merchantName, and merchantCity are required''))
      else
        let fields =
              [Field (str ''00'') (Some (str ''Payload Format Indicator'')) (str ''02'') (Str (str ''01'')),
               Field (str ''26'') (Some (str ''Merchant Account Information'')) (str ''variable'')
                 (Arr [Field (str ''00'') (Some (str ''GUI'')) (str ''14'') (Str (str ''BR.GOV.BCB.PIX'')),
                       Field (str ''01'') (Some (str ''Key'')) (str ''variable'') (Str (the (key p)))]),
               Field (str ''52'') (Some (str ''Merchant Category Code (MCC)'')) (str ''04'') (Str (str ''0000'')),
               Field (str ''53'') (Some (str ''Transaction Currency'')) (str ''03'') (Str (str ''986'')),
               Field (str ''58'') (Some (str ''Country Code'')) (str ''02'') (Str (str ''BR'')),
               Field (str ''59'') (Some (str ''Merchant Name'')) (str ''variable'') (Str (toUpperCase unicode_upper (the (merchantName p)))),
               Field (str ''60'') (Some (str ''Merchant City'')) (str ''variable'') (Str (toUpperCase unicode_upper (the (merchantCity p))))];
            fields = (if truthy (amount p)
                      then splice_insert fields (- 3)
                             (Field (str ''54'') (Some (str ''Transaction Amount'')) (str ''variable'')
                                (Str (toFixed (parseFloat (the (amount p))) 2)))
                      else fields);
            fields = (if truthy (transactionId p) \<or> truthy (description p)
                      then fields @ [additionalData p] else fields)
        in Inr [''value'' \<mapsto> Arr fields])"

section \<open>validateKey\<close>

text \<open>
  The regular expressions of \<^verbatim>\<open>validateKey\<close> are values of \<open>regex\<close>; \<open>regex_test\<close> is
  \<^verbatim>\<open>RegExp.prototype.test\<close> for an expression anchored at both ends, by derivatives.
\<close>

datatype regex = Nul | Eps | Atom "code_unit \<Rightarrow> bool" | Seq regex regex | Alt regex regex | Star regex

fun nullable :: "regex \<Rightarrow> bool" where
  "nullable Nul = False"
| "nullable Eps = True"
| "nullable (Atom P) = False"
| "nullable (Seq r s) = (nullable r \<and> nullable s)"
| "nullable (Alt r s) = (nullable r \<or> nullable s)"
| "nullable (Star r) = True"

fun deriv :: "code_unit \<Rightarrow> regex \<Rightarrow> regex" where
  "deriv c Nul = Nul"
| "deriv c Eps = Nul"
| "deriv c (Atom P) = (if P c then Eps else Nul)"
| "deriv c (Seq r s) = (if nullable r then Alt (Seq (deriv c r) s) (deriv c s) else Seq (deriv c r) s)"
| "deriv c (Alt r s) = Alt (deriv c r) (deriv c s)"
| "deriv c (Star r) = Seq (deriv c r) (Star r)"

definition regex_test :: "regex \<Rightarrow> jsstring \<Rightarrow> bool" where
  "regex_test r s = nullable (foldl (\<lambda>r c. deriv c r) r s)"

fun repeat :: "nat \<Rightarrow> regex \<Rightarrow> regex" where
  "repeat 0 r = Eps"
| "repeat (Suc n) r = Seq r (repeat n r)"

definition re_plus :: "regex \<Rightarrow> regex" where
  "re_plus r = Seq r (Star r)"

definition lit :: "code_unit \<Rightarrow> regex" where
  "lit c = Atom (\<lambda>x. x = c)"

text \<open>
  \<^verbatim>\<open>\d\<close>, \<^verbatim>\<open>[^\s@]\<close> and \<^verbatim>\<open>[0-9a-f]\<close> under the flag \<^verbatim>\<open>i\<close>. With that flag a
  code unit matches the class when its canonical form is the canonical form of a member.
  The canonical form is the upper case; a code unit from 128 on is never given a
  canonical form below 128, so it stays apart from every member of this class, as it
  does here, where it is its own canonical form.
\<close>

definition not_space_at :: "code_unit \<Rightarrow> bool" where
  "not_space_at c = (\<not> is_whitespace c \<and> c \<noteq> of_char CHR ''@'')"

definition canonicalize :: "code_unit \<Rightarrow> code_unit" where
  "canonicalize c = (if is_ascii c then ascii_upper c else c)"

definition hex_i :: "code_unit \<Rightarrow> bool" where
  "hex_i c = (canonicalize c \<in> canonicalize ` set (str ''0123456789abcdef''))"

definition re_digits :: "nat \<Rightarrow> regex" where
  "re_digits n = repeat n (Atom is_digit)"

definition re_email :: regex where
  "re_email = Seq (re_plus (Atom not_space_at)) (Seq (lit (of_char CHR ''@''))
               (Seq (re_plus (Atom not_space_at)) (Seq (lit (of_char CHR ''.'')) (re_plus (Atom not_space_at)))))"

definition re_phone :: regex where
  "re_phone = Seq (lit (of_char CHR ''+'')) (Seq (lit (of_char CHR ''5'')) (Seq (lit (of_char CHR ''5''))
                (Seq (repeat 10 (Atom is_digit)) (Alt (Atom is_digit) Eps))))"

definition re_uuid :: regex where
  "re_uuid = Seq (repeat 8 (Atom hex_i)) (Seq (lit (of_char CHR ''-''))
              (Seq (repeat 4 (Atom hex_i)) (Seq (lit (of_char CHR ''-''))
              (Seq (repeat 4 (Atom hex_i)) (Seq (lit (of_char CHR ''-''))
              (Seq (repeat 4 (Atom hex_i)) (Seq (lit (of_char CHR ''-'')) (repeat 12 (Atom hex_i)))))))))"

record validation =
  isValid :: bool
  type :: "jsstring option"
  error :: "jsstring option"

definition validateKey :: "jsstring \<Rightarrow> validation" where
  "validateKey k =
     (if k = [] then \<lparr>isValid = False, type = None, error = Some (str ''Key must be a non-empty string'')\<rparr>
      else
        let cleanKey = filter is_digit k
        in if regex_test (re_digits 11) cleanKey then \<lparr>isValid = True, type = Some (str ''CPF''), error = None\<rparr>
           else if regex_test (re_digits 14) cleanKey then \<lparr>isValid = True, type = Some (str ''CNPJ''), error = None\<rparr>
           else if regex_test re_email k then \<lparr>isValid = True, type = Some (str ''EMAIL''), error = None\<rparr>
           else if regex_test re_phone k then \<lparr>isValid = True, type = Some (str ''PHONE''), error = None\<rparr>
           else if regex_test re_uuid k then \<lparr>isValid = True, type = Some (str ''RANDOM''), error = None\<rparr>
           else \<lparr>isValid = False, type = None, error = Some (str ''Invalid PIX key format'')\<rparr>)"

text \<open>
  The language of an expression, and the patterns as the specification words them:
  \<open>local@domain.tld\<close> with one \<open>@\<close> and no white space; \<open>+55\<close> and 10 or 11 digits;
  hexadecimal groups of 8, 4, 4, 4 and 12 characters, in either case, joined by \<open>-\<close>.
\<close>

definition conc :: "jsstring set \<Rightarrow> jsstring set \<Rightarrow> jsstring set" where
  "conc A B = {u @ v | u v. u \<in> A \<and> v \<in> B}"

inductive_set star :: "jsstring set \<Rightarrow> jsstring set" for A :: "jsstring set" where
  star_empty: "[] \<in> star A"
| star_step: "u \<in> A \<Longrightarrow> v \<in> star A \<Longrightarrow> u @ v \<in> star A"

fun lang :: "regex \<Rightarrow> jsstring set" where
  "lang Nul = {}"
| "lang Eps = {[]}"
| "lang (Atom P) = {[c] | c. P c}"
| "lang (Seq r s) = conc (lang r) (lang s)"
| "lang (Alt r s) = lang r \<union> lang s"
| "lang (Star r) = star (lang r)"

definition is_hex :: "code_unit \<Rightarrow> bool" where
  "is_hex c = (c \<in> set (str ''0123456789abcdefABCDEF''))"

definition spec_email :: "jsstring \<Rightarrow> bool" where
  "spec_email k = (\<exists>l d t. k = l @ (str ''@'') @ d @ (str ''.'') @ t \<and> l \<noteq> [] \<and> d \<noteq> [] \<and> t \<noteq> []
                     \<and> list_all not_space_at l \<and> list_all not_space_at d \<and> list_all not_space_at t)"

definition spec_phone :: "jsstring \<Rightarrow> bool" where
  "spec_phone k = (\<exists>ds. k = (str ''+55'') @ ds \<and> (length ds = 10 \<or> length ds = 11) \<and> list_all is_digit ds)"

definition spec_uuid :: "jsstring \<Rightarrow> bool" where
  "spec_uuid k = (\<exists>a b c d e. k = a @ (str ''-'') @ b @ (str ''-'') @ c @ (str ''-'') @ d @ (str ''-'') @ e
                    \<and> length a = 8 \<and> length b = 4 \<and> length c = 4 \<and> length d = 4 \<and> length e = 12
                    \<and> list_all is_hex a \<and> list_all is_hex b \<and> list_all is_hex c
                    \<and> list_all is_hex d \<and> list_all is_hex e)"

section \<open>The end-to-end vector of the test suite\<close>

definition vector_params :: params where
  "vector_params =
     \<lparr>key = Some (str ''23484225000166''), merchantName = Some (str ''WISEFOX''),
      merchantCity = Some (str ''BELO HORIZONTE''), amount = Some (str ''123.45''),
      transactionId = Some (str ''ref1234''), description = None\<rparr>"

definition vector_wire :: jsstring where
  "vector_wire = str ''00020126360014BR.GOV.BCB.PIX0114234842250001665204000053039865406123.455802BR5907WISEFOX6014BELO HORIZONTE62450507ref123450300017BR.GOV.BCB.BRCODE01051.0.063040D3F''"

definition vector_document :: "field list" where
  "vector_document =
     [Field (str ''00'') (Some (str ''Payload Format Indicator'')) (str ''02'') (Str (str ''01'')),
      Field (str ''26'') (Some (str ''Merchant Account Information'')) (str ''variable'')
        (Arr [Field (str ''00'') (Some (str ''GUI'')) (str ''14'') (Str (str ''BR.GOV.BCB.PIX'')),
              Field (str ''01'') (Some (str ''Key'')) (str ''variable'') (Str (str ''23484225000166''))]),
      Field (str ''52'') (Some (str ''Merchant Category Code (MCC)'')) (str ''04'') (Str (str ''0000'')),
      Field (str ''53'') (Some (str ''Transaction Currency'')) (str ''03'') (Str (str ''986'')),
      Field (str ''54'') (Some (str ''Transaction Amount'')) (str ''variable'') (Str (str ''123.45'')),
      Field (str ''58'') (Some (str ''Country Code'')) (str ''02'') (Str (str ''BR'')),
      Field (str ''59'') (Some (str ''Merchant Name'')) (str ''variable'') (Str (str ''WISEFOX'')),
      Field (str ''60'') (Some (str ''Merchant City'')) (str ''variable'') (Str (str ''BELO HORIZONTE'')),
      Field (str ''62'') (Some (str ''Additional Data Field Template'')) (str ''variable'')
        (Arr [Field (str ''05'') (Some (str ''Transaction ID'')) (str ''variable'') (Str (str ''ref1234'')),
              Field (str ''50'') (Some (str ''Payment system specific template'')) (str ''variable'')
                (Arr [Field (str ''00'') (Some (str ''GUI'')) (str ''17'') (Str (str ''BR.GOV.BCB.BRCODE'')),
                      Field (str ''01'') (Some (str ''version'')) (str ''05'') (Str (str ''1.0.0''))])])]"

definition vector_decoded :: "field list" where
  "vector_decoded =
     [Field (str ''00'') (Some (str ''Payload Format Indicator'')) (str ''02'') (Str (str ''01'')),
      Field (str ''26'') (Some (str ''Merchant Account Information'')) (str ''36'')
        (Arr [Field (str ''00'') (Some (str ''GUI'')) (str ''14'') (Str (str ''BR.GOV.BCB.PIX'')),
              Field (str ''01'') (Some (str ''Key'')) (str ''14'') (Str (str ''23484225000166''))]),
      Field (str ''52'') (Some (str ''Merchant Category Code (MCC)'')) (str ''04'') (Str (str ''0000'')),
      Field (str ''53'') (Some (str ''Transaction Currency'')) (str ''03'') (Str (str ''986'')),
      Field (str ''54'') (Some (str ''Transaction Amount'')) (str ''06'') (Str (str ''123.45'')),
      Field (str ''58'') (Some (str ''Country Code'')) (str ''02'') (Str (str ''BR'')),
      Field (str ''59'') (Some (str ''Merchant Name'')) (str ''07'') (Str (str ''WISEFOX'')),
      Field (str ''60'') (Some (str ''Merchant City'')) (str ''14'') (Str (str ''BELO HORIZONTE'')),
      Field (str ''62'') (Some (str ''Additional Data Field Template'')) (str ''45'')
        (Arr [Field (str ''05'') (Some (str ''Transaction ID'')) (str ''07'') (Str (str ''ref1234'')),
              Field (str ''50'') (Some (str ''Payment system specific template'')) (str ''30'')
                (Str (str ''0017BR.GOV.BCB.BRCODE01051.0.0''))]),
      Field (str ''63'') (Some (str ''CRC16 - result's 4 nibbles'')) (str ''04'') (Str (str ''0D3F''))]"

definition vector_body :: jsstring where
  "vector_body = str ''00020126360014BR.GOV.BCB.PIX0114234842250001665204000053039865406123.455802BR5907WISEFOX6014BELO HORIZONTE62450507ref123450300017BR.GOV.BCB.BRCODE01051.0.06304''"

section \<open>What the wire carries and what decode returns\<close>

text \<open>
  The value of a subfield as \<open>encodeField\<close> writes it (a nested array is written as
  the concatenation of its encoded fields), the content of a composite field, and a
  tuple of the wire: id, two-digit length, value.
\<close>

definition subValue_of :: "field \<Rightarrow> jsstring" where
  "subValue_of sub =
     (case fvalue sub of
        Arr vs \<Rightarrow> concat (map (\<lambda>v. encodeField (fid v) (fvalue v)) vs)
      | Str s \<Rightarrow> s)"

definition tuple :: "jsstring \<Rightarrow> jsstring \<Rightarrow> jsstring" where
  "tuple i c = i @ formatLength (Num (int (length c))) 2 @ c"

definition nestedData_of :: "field list \<Rightarrow> jsstring" where
  "nestedData_of subs =
     concat (map (\<lambda>sub. if fid sub \<noteq> [] then tuple (fid sub) (subValue_of sub) else []) subs)"

text \<open>
  The decoder recurses into the ids 26 and 62 only, and only at the level where it meets
  them: a subfield comes back with the string that the wire carries, also when the
  document had an array there (the template 62.50). \<open>flat_field\<close> is the document's
  field with its subfields so flattened; \<open>id_value\<close> keeps the ids and values of a
  field and forgets its description and length.
\<close>

definition flat_sub :: "field \<Rightarrow> field" where
  "flat_sub sub = Field (fid sub) (fdescription sub) (flength sub) (Str (subValue_of sub))"

definition flat_field :: "field \<Rightarrow> field" where
  "flat_field f =
     (case fvalue f of
        Arr subs \<Rightarrow> Field (fid f) (fdescription f) (flength f) (Arr (map flat_sub subs))
      | Str s \<Rightarrow> f)"

primrec id_value :: "field \<Rightarrow> field" and id_value_of :: "pvalue \<Rightarrow> pvalue" where
  "id_value (Field i d l v) = Field i None [] (id_value_of v)"
| "id_value_of (Str s) = Str s"
| "id_value_of (Arr fs) = Arr (map id_value fs)"

text \<open>The ceiling of the format: no value and no content of a composite above 99 characters.\<close>

definition within99 :: "field list \<Rightarrow> bool" where
  "within99 fs =
     list_all (\<lambda>f. case fvalue f of
                      Str v \<Rightarrow> length v \<le> 99
                    | Arr subs \<Rightarrow> length (nestedData_of subs) \<le> 99
                        \<and> list_all (\<lambda>sub. length (subValue_of sub) \<le> 99) subs) fs"

text \<open>Documents that the scan reads back: the shape of what \<open>createPayment\<close> builds.\<close>

definition wf_sub :: "field \<Rightarrow> bool" where
  "wf_sub sub = (length (fid sub) = 2 \<and> fid sub \<notin> set [str ''26'', str ''62'']
                 \<and> length (subValue_of sub) \<le> 99)"

definition wf_field :: "field \<Rightarrow> bool" where
  "wf_field f =
     (length (fid f) = 2 \<and> fid f \<noteq> str ''63''
      \<and> (case fvalue f of
            Str v \<Rightarrow> fid f \<notin> set [str ''26'', str ''62''] \<and> length v \<le> 99
          | Arr subs \<Rightarrow> fid f \<in> set [str ''26'', str ''62''] \<and> list_all wf_sub subs
              \<and> length (nestedData_of subs) \<le> 99
              \<and> (subs = [] \<or> subValue_of (last subs) \<noteq> [])))"

definition scanned_sub :: "field \<Rightarrow> field" where
  "scanned_sub sub =
     Field (fid sub) None (formatLength (Num (int (length (subValue_of sub)))) 2) (Str (subValue_of sub))"

definition scanned_field :: "field \<Rightarrow> field" where
  "scanned_field f =
     (case fvalue f of
        Str v \<Rightarrow> Field (fid f) None (formatLength (Num (int (length v))) 2) (Str v)
      | Arr subs \<Rightarrow> Field (fid f) None (formatLength (Num (int (length (nestedData_of subs)))) 2)
                      (Arr (map scanned_sub subs)))"

text \<open>
  A tuple of the wire with what the scan makes of it: the id, the characters of the
  value, and the decoded value (the nested scan of those characters for the ids 26
  and 62).
\<close>

definition item_ok :: "jsstring \<times> jsstring \<times> pvalue \<Rightarrow> bool" where
  "item_ok it =
     (case it of (i, c, v) \<Rightarrow>
        length i = 2 \<and> length c \<le> 99
        \<and> (if i \<in> set [str ''26'', str ''62'']
            then \<exists>nested. decodeFields_loop c (Num 0) [] = Some nested \<and> v = Arr nested
            else v = Str c))"

definition item_wire :: "jsstring \<times> jsstring \<times> pvalue \<Rightarrow> jsstring" where
  "item_wire it = (case it of (i, c, v) \<Rightarrow> tuple i c)"

definition item_field :: "jsstring \<times> jsstring \<times> pvalue \<Rightarrow> field" where
  "item_field it =
     (case it of (i, c, v) \<Rightarrow> Field i None (formatLength (Num (int (length c))) 2) v)"

definition sub_item :: "field \<Rightarrow> jsstring \<times> jsstring \<times> pvalue" where
  "sub_item sub = (fid sub, subValue_of sub, Str (subValue_of sub))"

definition top_item :: "field \<Rightarrow> jsstring \<times> jsstring \<times> pvalue" where
  "top_item f =
     (case fvalue f of
        Str v \<Rightarrow> (fid f, v, Str v)
      | Arr subs \<Rightarrow> (fid f, nestedData_of subs, Arr (map scanned_sub subs)))"

definition wire_body :: "field list \<Rightarrow> jsstring" where
  "wire_body fs = concat (map (\<lambda>f. encodeField (fid f) (fvalue f)) fs) @ str ''6304''"

lemma down_up: "(ucast (ucast (x :: 32 word) :: 16 word) :: 32 word) = take_bit 16 x"
  by (rule bit_word_eqI) (auto simp add: bit_simps)

lemma up_down: "(ucast (ucast (r :: 16 word) :: 32 word) :: 16 word) = r"
  by (rule bit_word_eqI) (auto simp add: bit_simps)

lemma bit15_low: "((x :: 32 word) AND 0x8000 \<noteq> 0) = bit (ucast x :: 16 word) 15"
proof -
  have e: "(0x8000 :: 32 word) = push_bit 15 1" by simp
  have "bit (ucast x :: 16 word) 15 = bit x 15" by (simp add: bit_ucast_iff)
  then show ?thesis
    unfolding e using bit_iff_and_push_bit_not_eq_0 [of x 15] by simp
qed

lemma shift_low_gen:
  "take_bit 16 (push_bit k (x :: 32 word)) = ucast (push_bit k (ucast x :: 16 word))"
  by (rule bit_word_eqI) (auto simp add: bit_take_bit_iff bit_push_bit_iff bit_ucast_iff)

lemmas shift_low = shift_low_gen [of 1]

lemma step_low:
  "((if (x :: 32 word) AND 0x8000 \<noteq> 0 then push_bit 1 x XOR polynomial else push_bit 1 x) AND 0xffff)
     = ucast (ccitt_shift (ucast x :: 16 word))"
proof -
  have m: "(0xffff :: 32 word) = mask 16" by (simp add: mask_eq_exp_minus_1)
  have p: "(0x1021 :: 32 word) = ucast (0x1021 :: 16 word)" by simp
  have q: "take_bit 16 (ucast (0x1021 :: 16 word) :: 32 word) = ucast (0x1021 :: 16 word)" by simp
  show ?thesis
    unfolding bit15_low ccitt_shift_def polynomial_def m p
    by (simp only: take_bit_eq_mask [symmetric] if_distrib [of "take_bit 16"] if_distrib [of ucast]
          take_bit_xor unsigned_xor_eq shift_low q)
qed

lemma crc_bits_low:
  "crc_bits (Suc n) x = ucast ((ccitt_shift ^^ Suc n) (ucast x :: 16 word))"
proof (induction n arbitrary: x)
  case 0
  show ?case by (simp add: step_low)
next
  case (Suc n)
  have "crc_bits (Suc (Suc n)) x = crc_bits (Suc n) (ucast (ccitt_shift (ucast x :: 16 word)))"
    by (simp only: crc_bits.simps(2) [of "Suc n"] step_low)
  also have "\<dots> = ucast ((ccitt_shift ^^ Suc n) (ccitt_shift (ucast x :: 16 word)))"
    by (simp only: Suc.IH up_down)
  finally show ?case by (simp only: funpow_Suc_right o_apply)
qed

lemma xor_low_gen:
  "8 \<le> k \<Longrightarrow> (ucast ((ucast (r :: 16 word) :: 32 word) XOR push_bit k (ucast (c :: 16 word))) :: 16 word)
     = r XOR push_bit k (ucast (low_byte c))"
  unfolding low_byte_def
  by (rule bit_word_eqI) (auto simp add: bit_xor_iff bit_push_bit_iff bit_ucast_iff)

lemmas xor_low = xor_low_gen [of 8, OF order_refl]

lemma crc_bits8_low: "crc_bits 8 x = ucast ((ccitt_shift ^^ 8) (ucast x :: 16 word))"
proof -
  have "(8::nat) = Suc 7" by simp
  then show ?thesis by (simp only: crc_bits_low)
qed

lemma crc_chars_low:
  "crc_chars s (ucast (r :: 16 word)) = ucast (foldl ccitt_byte r (map low_byte s))"
proof (induction s arbitrary: r)
  case Nil
  show ?case by simp
next
  case (Cons c cs)
  have "crc_bits 8 ((ucast r :: 32 word) XOR push_bit 8 (ucast c)) = ucast (ccitt_byte r (low_byte c))"
    unfolding crc_bits8_low xor_low ccitt_byte_def ..
  then show ?case
    by (simp only: crc_chars.simps Cons.IH list.map foldl_Cons)
qed


lemmas js_eval = str_def substr_def slice_def parseInt_def Let_def is_whitespace_def is_digit_def
  digits_value_def padStart_def int_toString_def digit_char_def digits_of.simps

lemma crc_bits8:
  "crc_bits 8 crc = crc_bits 0 (crc_bits (Suc (Suc (Suc (Suc (Suc (Suc (Suc (Suc 0)))))))) crc)"
proof -
  have "(8::nat) = Suc (Suc (Suc (Suc (Suc (Suc (Suc (Suc 0)))))))" by simp
  then show ?thesis by (simp only: crc_bits.simps(1))
qed

lemmas crc_eval = str_def calculateCRC16_def crc_bits8 polynomial_def padStart_def
  toUpperCase_ascii_def ascii_upper_def int_toString_def digit_char_def digits_of.simps

lemma upper_digit:
  assumes "d < 16"
  shows "ascii_upper (digit_char d) = upper_hex_digit d" and "is_upper_hex (upper_hex_digit d)"
proof -
  from assms have "d = 0 \<or> d = 1 \<or> d = 2 \<or> d = 3 \<or> d = 4 \<or> d = 5 \<or> d = 6 \<or> d = 7 \<or> d = 8
      \<or> d = 9 \<or> d = 10 \<or> d = 11 \<or> d = 12 \<or> d = 13 \<or> d = 14 \<or> d = 15" by arith
  then show "ascii_upper (digit_char d) = upper_hex_digit d" and "is_upper_hex (upper_hex_digit d)"
    by (auto simp add: ascii_upper_def digit_char_def upper_hex_digit_def is_upper_hex_def str_def)
qed

lemma hex_format:
  assumes "n < 65536"
  shows "padStart (toUpperCase_ascii (digits_of 16 n)) 4 (of_char CHR ''0'')
         = [upper_hex_digit (n div 4096), upper_hex_digit (n div 256 mod 16),
            upper_hex_digit (n div 16 mod 16), upper_hex_digit (n mod 16)]"
proof -
  have z: "upper_hex_digit 0 = of_char CHR ''0''" by (simp add: upper_hex_digit_def)
  have u: "ascii_upper (digit_char (m mod 16)) = upper_hex_digit (m mod 16)" for m
    by (rule upper_digit(1)) simp
  have one: "digits_of 16 m = [digit_char m]" if "m < 16" for m
    using that by (subst digits_of.simps) simp
  have more: "digits_of 16 m = digits_of 16 (m div 16) @ [digit_char (m mod 16)]" if "16 \<le> m" for m
    using that by (subst digits_of.simps) simp
  have r: "replicate 3 c = [c, c, c]" "replicate 2 c = [c, c]" for c :: code_unit
    by (simp_all add: numeral_eq_Suc)
  consider "n < 16" | "16 \<le> n" "n < 256" | "256 \<le> n" "n < 4096" | "4096 \<le> n" by linarith
  then show ?thesis
  proof cases
    case 1
    then show ?thesis
      by (simp add: one padStart_def toUpperCase_ascii_def upper_digit(1) z r del: of_char_Char)
  next
    case 2
    then have a: "n div 16 < 16" by simp
    from 2 a have "n div 256 = 0" "n div 4096 = 0" "n div 16 mod 16 = n div 16" by simp_all
    with 2 a show ?thesis
      by (simp add: more [of n] one [of "n div 16"] padStart_def toUpperCase_ascii_def
          upper_digit(1) u z r del: of_char_Char)
  next
    case 3
    then have a: "16 \<le> n" "16 \<le> n div 16" "n div 16 div 16 < 16" by simp_all
    have b: "n div 16 div 16 = n div 256" by (simp add: div_mult2_eq)
    from 3 have c: "n div 4096 = 0" "n div 256 mod 16 = n div 256" by simp_all
    from a b have d: "n div 256 < 16" by simp
    show ?thesis
      by (simp add: more [of n] more [of "n div 16"] one [of "n div 256"] a b c d
          padStart_def toUpperCase_ascii_def upper_digit(1) u z del: of_char_Char)
  next
    case 4
    with assms have a: "16 \<le> n" "16 \<le> n div 16" "16 \<le> n div 256" "n div 4096 < 16"
      by simp_all
    have b: "n div 16 div 16 = n div 256" "n div 256 div 16 = n div 4096"
      by (simp_all add: div_mult2_eq)
    show ?thesis
      by (simp add: more [of n] more [of "n div 16"] more [of "n div 256"] one [of "n div 4096"] a b
          padStart_def toUpperCase_ascii_def upper_digit(1) u)
  qed
qed

lemma calculateCRC16_refines: "calculateCRC16 s = hex4 (crc16_ccitt_false (map low_byte s))"
proof -
  have i: "(0xffff :: 32 word) = ucast (0xffff :: 16 word)" by simp
  define r where "r = crc16_ccitt_false (map low_byte s)"
  have c: "crc_chars s 0xffff = ucast r"
    unfolding i r_def crc16_ccitt_false_def by (rule crc_chars_low)
  have "uint r < 2 ^ LENGTH(16)" by (rule unsigned_less)
  then have "uint r < 2 ^ 31" by simp
  moreover have "- (2 ^ 31) \<le> uint r"
    by (rule order_trans [of _ 0]) simp_all
  ultimately have "signed_take_bit 31 (uint r) = uint r"
    by (rule signed_take_bit_int_eq_self [rotated])
  then have s: "sint (ucast r :: 32 word) = int (unat r)"
    by (simp add: signed_ucast_eq)
  have "unat r < 2 ^ LENGTH(16)" by (rule unsigned_less)
  then have lt: "unat r < 65536" by simp
  show ?thesis
    unfolding calculateCRC16_def c s r_def [symmetric] hex4_def int_toString_def
    using hex_format [OF lt] by simp
qed

lemma hex4_shape: "length (hex4 w) = 4" "list_all is_upper_hex (hex4 w)"
proof -
  have "unat w < 2 ^ LENGTH(16)" by (rule unsigned_less)
  then have lt: "unat w < 65536" by simp
  then have "unat w div 4096 < 16" by simp
  then show "length (hex4 w) = 4" "list_all is_upper_hex (hex4 w)"
    by (simp_all add: hex4_def upper_digit(2))
qed

lemma length_calculateCRC16: "length (calculateCRC16 s) = 4"
  by (simp only: calculateCRC16_refines hex4_shape)

lemma unat_low_byte: "unat (low_byte c) = unat c mod 256"
  by (simp add: low_byte_def unsigned_ucast_eq take_bit_eq_mod)

lemma crc_check_vector: "calculateCRC16 (str ''123456789'') = str ''29B1''"
  by (simp add: crc_eval)

lemma crc_euro: "calculateCRC16 [0x20AC] = str ''9596''" "calculateCRC16 [0xAC] = str ''9596''"
  by (simp_all add: crc_eval)


text \<open>
  Claim C3. For every string, \<open>calculateCRC16\<close> returns exactly four upper-case
  hexadecimal characters, zero-padded on the left, which are the CRC-16/CCITT-FALSE
  (register 0xFFFF, polynomial 0x1021, each byte XORed into the high byte, eight shifts
  MSB-first on 16 bits) of the bytes that the code units put into the high byte: of a
  code unit shifted left by 8 the mask keeps the low byte, the code unit modulo 256, so
  U+20AC counts as the byte AC. The check vector \<open>123456789\<close> gives \<open>29B1\<close>.
\<close>

theorem calculateCRC16_ccitt_false:
  "length (calculateCRC16 s) = 4
   \<and> list_all is_upper_hex (calculateCRC16 s)
   \<and> calculateCRC16 s = hex4 (crc16_ccitt_false (map low_byte s))
   \<and> (\<forall>c. unat (low_byte c) = unat c mod 256)
   \<and> calculateCRC16 (str ''123456789'') = str ''29B1''
   \<and> calculateCRC16 [0x20AC] = str ''9596''"
  by (simp only: crc_check_vector crc_euro unat_low_byte)
    (simp only: calculateCRC16_refines hex4_shape simp_thms)

section \<open>The field scan\<close>

lemma loop_forever_aux:
  assumes "decodeFields_loop s p fs = Some y"
  shows "\<not> (s = str ''00-4'' @ c # cs \<and> p = Num 0)"
proof (rule decodeFields_loop.raw_induct
    [where P = "\<lambda>s p fs y. \<not> (s = str ''00-4'' @ c # cs \<and> p = Num 0)", OF _ assms], goal_cases)
  case (1 loop s' p' fs' y')
  show ?case
  proof
    assume a: "s' = str ''00-4'' @ c # cs \<and> p' = Num 0"
    with 1(2) have h: "loop s' (Num 0) (fs' @ [Field (str ''00'') None (str ''-4'') (Str [])]) = Some y'"
      by (simp add: js_eval)
    have "\<not> (s' = str ''00-4'' @ c # cs \<and> Num 0 = Num 0)"
      by (rule 1(1) [OF h])
    with a show False by simp
  qed
qed

lemma loop_forever: "decodeFields_loop (str ''00-4'' @ c # cs) (Num 0) fs = None"
  using loop_forever_aux [of "str ''00-4'' @ c # cs" "Num 0" fs _ c cs]
  by (cases "decodeFields_loop (str ''00-4'' @ c # cs) (Num 0) fs") auto

lemma crc_empty: "calculateCRC16 [] = str ''FFFF''"
  by (simp add: crc_eval)

lemma crc_00m4: "calculateCRC16 (str ''00-4'') = str ''6BE1''"
  by (simp add: crc_eval)

lemma scan_FFFF: "decodeFields (str ''FFFF'') = Some [Field (str ''63'') None (str ''04'') (Str [])]"
  unfolding decodeFields_def
  by (subst decodeFields_loop.simps) (simp add: js_eval)

text \<open>
  Claim C6. After the loop, the scan is to add a field 63 holding the last four
  characters. On \<open>FFFF\<close> (which \<open>decode\<close> accepts, as it is the CRC of the empty
  string) the loop does not run, the field is added, and its value is the empty string:
  \<^verbatim>\<open>substr(position + 4, 4)\<close> reads past the end.
\<close>

theorem decodeFields_crc_field_empty:
  "decodeFields (str ''FFFF'') = Some [Field (str ''63'') None (str ''04'') (Str [])]
   \<and> decode (str ''FFFF'')
       = Some (Inr [''value'' \<mapsto> Arr [Field (str ''63'') (Some (str ''CRC16 - result's 4 nibbles''))
                                          (str ''04'') (Str [])]])"
proof -
  have "slice (str ''FFFF'') 0 (Some (- 4)) = []" "slice (str ''FFFF'') (- 4) None = str ''FFFF''"
    by (simp_all add: slice_def str_def)
  moreover have "describe_field (Field (str ''63'') None (str ''04'') (Str []))
      = Field (str ''63'') (Some (str ''CRC16 - result's 4 nibbles'')) (str ''04'') (Str [])"
    by (simp add: describe_field_def descriptionsMap_def str_def)
  moreover have "str ''FFFF'' \<noteq> []" by (simp add: str_def)
  ultimately show ?thesis
    by (simp add: scan_FFFF decode_def crc_empty)
qed

text \<open>
  Claim C9. \<open>decodeFields\<close> is not total: \<^verbatim>\<open>parseInt\<close> reads \<open>-4\<close> as a length, the
  position advances by \<open>4 + (-4) = 0\<close>, and the scan of \<open>00-4X\<close> never returns; the
  same happens inside \<open>decode\<close> on \<open>00-46BE1\<close>, whose checksum is right.
\<close>

theorem decodeFields_diverges:
  "decodeFields (str ''00-4X'') = None \<and> decode (str ''00-46BE1'') = None"
proof -
  have a: "decodeFields (str ''00-4X'') = None"
    unfolding decodeFields_def using loop_forever [of "of_char CHR ''X''" "[]"] by (simp add: str_def)
  have "decodeFields (str ''00-46BE1'') = None"
    unfolding decodeFields_def using loop_forever [of "of_char CHR ''6''" "str ''BE1''"]
    by (simp add: str_def)
  moreover have "slice (str ''00-46BE1'') 0 (Some (- 4)) = str ''00-4''"
    "slice (str ''00-46BE1'') (- 4) None = str ''6BE1''" "str ''00-46BE1'' \<noteq> []"
    by (simp_all add: slice_def str_def)
  ultimately have "decode (str ''00-46BE1'') = None"
    by (simp add: decode_def crc_00m4)
  with a show ?thesis by simp
qed

section \<open>decode: the guards\<close>

text \<open>
  Claim C10. \<open>decode\<close> on the empty string raises the error of the non-empty-string
  guard; that error is not a checksum mismatch, whatever the two CRC values.
\<close>

theorem decode_empty_invalid_input:
  "decode [] = Some (Inl invalid_pix_string) \<and> (\<forall>c p. invalid_pix_string \<noteq> invalid_crc c p)"
  by (simp add: decode_def invalid_pix_string_def invalid_crc_def str_def)

section \<open>The key classifier\<close>

lemma nullable_lang: "nullable r \<longleftrightarrow> [] \<in> lang r"
  by (induction r) (auto simp add: conc_def intro: star_empty)

lemma conc_cons:
  "c # w \<in> conc A B \<longleftrightarrow> (\<exists>u v. w = u @ v \<and> c # u \<in> A \<and> v \<in> B) \<or> ([] \<in> A \<and> c # w \<in> B)"
  unfolding conc_def by (auto simp add: Cons_eq_append_conv)

lemma star_cons_split:
  assumes "x \<in> star A" and "x = c # w"
  shows "\<exists>u v. w = u @ v \<and> c # u \<in> A \<and> v \<in> star A"
  using assms
proof (induction arbitrary: w rule: star.induct)
  case star_empty
  then show ?case by simp
next
  case (star_step u v)
  show ?case
  proof (cases u)
    case Nil
    with star_step show ?thesis by simp
  next
    case (Cons a u')
    with star_step.prems have "a = c" and "w = u' @ v" by simp_all
    with Cons star_step.hyps show ?thesis by blast
  qed
qed

lemma star_cons:
  "c # w \<in> star A \<longleftrightarrow> (\<exists>u v. w = u @ v \<and> c # u \<in> A \<and> v \<in> star A)"
proof
  assume "c # w \<in> star A"
  then show "\<exists>u v. w = u @ v \<and> c # u \<in> A \<and> v \<in> star A"
    by (rule star_cons_split) simp
next
  assume "\<exists>u v. w = u @ v \<and> c # u \<in> A \<and> v \<in> star A"
  then obtain u v where "w = u @ v" "c # u \<in> A" "v \<in> star A" by blast
  then show "c # w \<in> star A"
    using star_step [of "c # u" A v] by simp
qed

lemma deriv_lang: "w \<in> lang (deriv c r) \<longleftrightarrow> c # w \<in> lang r"
proof (induction r arbitrary: w)
  case (Seq r s)
  then show ?case
    by (auto simp add: conc_cons nullable_lang) (auto simp add: conc_def)
next
  case (Star r)
  then show ?case
    by (auto simp add: star_cons) (auto simp add: conc_def)
qed auto

lemma regex_test_lang: "regex_test r w \<longleftrightarrow> w \<in> lang r"
  unfolding regex_test_def
  by (induction w arbitrary: r) (simp_all add: nullable_lang deriv_lang)


lemma conc_atom: "conc {[c] | c. P c} B = {a # v | a v. P a \<and> v \<in> B}"
proof (rule set_eqI, rule iffI)
  fix w
  assume "w \<in> conc {[c] | c. P c} B"
  then show "w \<in> {a # v | a v. P a \<and> v \<in> B}"
    by (auto simp add: conc_def)
next
  fix w
  assume "w \<in> {a # v | a v. P a \<and> v \<in> B}"
  then obtain a v where w: "w = a # v" "P a" "v \<in> B" by blast
  then have "w = [a] @ v" "[a] \<in> {[c] | c. P c}" by simp_all
  with w(3) show "w \<in> conc {[c] | c. P c} B"
    unfolding conc_def by blast
qed

lemma conc_lit: "conc (lang (lit c)) B = {c # v | v. v \<in> B}"
  unfolding lit_def lang.simps conc_atom by auto

lemma lang_repeat_atom: "w \<in> lang (repeat n (Atom P)) \<longleftrightarrow> length w = n \<and> list_all P w"
proof (induction n arbitrary: w)
  case 0
  show ?case by auto
next
  case (Suc n)
  show ?case by (cases w) (auto simp add: conc_atom Suc)
qed

lemma star_atoms: "w \<in> star {[c] | c. P c} \<longleftrightarrow> list_all P w"
proof (induction w)
  case Nil
  show ?case by (simp add: star_empty)
next
  case (Cons a w)
  then show ?case by (auto simp add: star_cons)
qed

lemma in_conc_atom: "w \<in> conc {[c] | c. P c} B \<longleftrightarrow> (\<exists>a v. w = a # v \<and> P a \<and> v \<in> B)"
  by (simp add: conc_atom)

lemma in_conc_lit: "w \<in> conc (lang (lit c)) B \<longleftrightarrow> (\<exists>v. w = c # v \<and> v \<in> B)"
  by (simp add: conc_lit)

lemma lang_plus_atom: "lang (re_plus (Atom P)) = {w. w \<noteq> [] \<and> list_all P w}"
proof (rule set_eqI)
  fix w
  show "w \<in> lang (re_plus (Atom P)) \<longleftrightarrow> w \<in> {w. w \<noteq> [] \<and> list_all P w}"
    by (cases w) (simp_all add: re_plus_def in_conc_atom star_atoms)
qed

lemma in_conc_plus:
  "w \<in> conc {w. w \<noteq> [] \<and> list_all P w} B \<longleftrightarrow> (\<exists>u v. w = u @ v \<and> u \<noteq> [] \<and> list_all P u \<and> v \<in> B)"
  unfolding conc_def by auto

lemma in_conc_repeat:
  "w \<in> conc (lang (repeat n (Atom P))) B \<longleftrightarrow> (\<exists>u v. w = u @ v \<and> length u = n \<and> list_all P u \<and> v \<in> B)"
  unfolding conc_def by (auto simp add: lang_repeat_atom)

lemma test_digits: "regex_test (re_digits n) (filter is_digit k) \<longleftrightarrow> length (filter is_digit k) = n"
  by (simp add: regex_test_lang re_digits_def lang_repeat_atom list_all_iff)

lemma test_email: "regex_test re_email k \<longleftrightarrow> spec_email k"
  unfolding regex_test_lang re_email_def spec_email_def lang.simps(4) lang_plus_atom
  unfolding in_conc_plus in_conc_lit
  by (simp only: mem_Collect_eq append_Cons append_Nil str_def list.map) blast

lemma test_phone: "regex_test re_phone k \<longleftrightarrow> spec_phone k"
proof -
  have t: "w \<in> lang (Alt (Atom is_digit) Eps) \<longleftrightarrow> length w \<le> 1 \<and> list_all is_digit w" for w
    by (cases w) auto
  have a: "k \<in> lang re_phone \<longleftrightarrow>
        (\<exists>u v. k = str ''+55'' @ u @ v \<and> length u = 10 \<and> list_all is_digit u \<and> length v \<le> 1 \<and> list_all is_digit v)"
    unfolding re_phone_def lang.simps(4) in_conc_lit in_conc_repeat t
    by (simp only: append_Cons append_Nil str_def list.map) blast
  have "(\<exists>u v. k = str ''+55'' @ u @ v \<and> length u = 10 \<and> list_all is_digit u \<and> length v \<le> 1 \<and> list_all is_digit v)
         \<longleftrightarrow> spec_phone k"
  proof
    assume "\<exists>u v. k = str ''+55'' @ u @ v \<and> length u = 10 \<and> list_all is_digit u \<and> length v \<le> 1 \<and> list_all is_digit v"
    then obtain u v where "k = str ''+55'' @ (u @ v)" "length u = 10" "list_all is_digit (u @ v)" "length v \<le> 1"
      by auto
    moreover from this have "length (u @ v) = 10 \<or> length (u @ v) = 11"
      by (auto simp add: le_Suc_eq)
    ultimately show "spec_phone k" unfolding spec_phone_def by blast
  next
    assume "spec_phone k"
    then obtain ds where d: "k = str ''+55'' @ ds" "length ds = 10 \<or> length ds = 11" "list_all is_digit ds"
      unfolding spec_phone_def by blast
    have "k = str ''+55'' @ take 10 ds @ drop 10 ds" using d(1) by simp
    moreover from d have "length (take 10 ds) = 10" "length (drop 10 ds) \<le> 1" by auto
    moreover from d have "list_all is_digit (take 10 ds)" "list_all is_digit (drop 10 ds)"
      by (auto simp add: list_all_iff dest: in_set_takeD in_set_dropD)
    ultimately show "\<exists>u v. k = str ''+55'' @ u @ v \<and> length u = 10 \<and> list_all is_digit u \<and> length v \<le> 1 \<and> list_all is_digit v"
      by blast
  qed
  with a show ?thesis by (simp add: regex_test_lang)
qed

lemma hex_i_is_hex: "hex_i c \<longleftrightarrow> is_hex c"
proof -
  have img: "canonicalize ` set (str ''0123456789abcdef'') = set (str ''0123456789ABCDEF'')"
    by (simp add: canonicalize_def is_ascii_def ascii_upper_def str_def)
  show ?thesis
    unfolding hex_i_def img is_hex_def
    by (auto simp add: canonicalize_def is_ascii_def ascii_upper_def str_def diff_eq_eq)
qed

lemma list_all_hex_i: "list_all hex_i = list_all is_hex"
  by (rule arg_cong [of _ _ list_all]) (simp add: fun_eq_iff hex_i_is_hex)

lemma test_uuid: "regex_test re_uuid k \<longleftrightarrow> spec_uuid k"
proof -
  define dash :: code_unit where "dash = of_char CHR ''-''"
  have l: "k \<in> lang re_uuid \<longleftrightarrow>
    (\<exists>a v1. k = a @ v1 \<and> length a = 8 \<and> list_all is_hex a \<and> (\<exists>w1. v1 = dash # w1 \<and>
     (\<exists>b v2. w1 = b @ v2 \<and> length b = 4 \<and> list_all is_hex b \<and> (\<exists>w2. v2 = dash # w2 \<and>
     (\<exists>c v3. w2 = c @ v3 \<and> length c = 4 \<and> list_all is_hex c \<and> (\<exists>w3. v3 = dash # w3 \<and>
     (\<exists>d v4. w3 = d @ v4 \<and> length d = 4 \<and> list_all is_hex d \<and> (\<exists>w4. v4 = dash # w4 \<and>
       length w4 = 12 \<and> list_all is_hex w4))))))))"
    unfolding re_uuid_def lang.simps(4) in_conc_lit in_conc_repeat lang_repeat_atom list_all_hex_i
      dash_def ..
  have r: "spec_uuid k \<longleftrightarrow>
    (\<exists>a b c d e. k = a @ dash # b @ dash # c @ dash # d @ dash # e
        \<and> length a = 8 \<and> length b = 4 \<and> length c = 4 \<and> length d = 4 \<and> length e = 12
        \<and> list_all is_hex a \<and> list_all is_hex b \<and> list_all is_hex c
        \<and> list_all is_hex d \<and> list_all is_hex e)"
    unfolding spec_uuid_def dash_def by (simp only: append_Cons append_Nil str_def list.map)
  show ?thesis
    unfolding regex_test_lang l r
  proof
    assume "\<exists>a v1. k = a @ v1 \<and> length a = 8 \<and> list_all is_hex a \<and> (\<exists>w1. v1 = dash # w1 \<and>
     (\<exists>b v2. w1 = b @ v2 \<and> length b = 4 \<and> list_all is_hex b \<and> (\<exists>w2. v2 = dash # w2 \<and>
     (\<exists>c v3. w2 = c @ v3 \<and> length c = 4 \<and> list_all is_hex c \<and> (\<exists>w3. v3 = dash # w3 \<and>
     (\<exists>d v4. w3 = d @ v4 \<and> length d = 4 \<and> list_all is_hex d \<and> (\<exists>w4. v4 = dash # w4 \<and>
       length w4 = 12 \<and> list_all is_hex w4)))))))"
    then obtain a b c d e where
      "k = a @ dash # b @ dash # c @ dash # d @ dash # e"
      "length a = 8" "length b = 4" "length c = 4" "length d = 4" "length e = 12"
      "list_all is_hex a" "list_all is_hex b" "list_all is_hex c" "list_all is_hex d" "list_all is_hex e"
      by (elim exE conjE) simp
    then show "\<exists>a b c d e. k = a @ dash # b @ dash # c @ dash # d @ dash # e
        \<and> length a = 8 \<and> length b = 4 \<and> length c = 4 \<and> length d = 4 \<and> length e = 12
        \<and> list_all is_hex a \<and> list_all is_hex b \<and> list_all is_hex c
        \<and> list_all is_hex d \<and> list_all is_hex e"
      by (intro exI conjI)
  next
    assume "\<exists>a b c d e. k = a @ dash # b @ dash # c @ dash # d @ dash # e
        \<and> length a = 8 \<and> length b = 4 \<and> length c = 4 \<and> length d = 4 \<and> length e = 12
        \<and> list_all is_hex a \<and> list_all is_hex b \<and> list_all is_hex c
        \<and> list_all is_hex d \<and> list_all is_hex e"
    then obtain a b c d e where
      "k = a @ dash # b @ dash # c @ dash # d @ dash # e"
      "length a = 8" "length b = 4" "length c = 4" "length d = 4" "length e = 12"
      "list_all is_hex a" "list_all is_hex b" "list_all is_hex c" "list_all is_hex d" "list_all is_hex e"
      by (elim exE conjE)
    then show "\<exists>a v1. k = a @ v1 \<and> length a = 8 \<and> list_all is_hex a \<and> (\<exists>w1. v1 = dash # w1 \<and>
     (\<exists>b v2. w1 = b @ v2 \<and> length b = 4 \<and> list_all is_hex b \<and> (\<exists>w2. v2 = dash # w2 \<and>
     (\<exists>c v3. w2 = c @ v3 \<and> length c = 4 \<and> list_all is_hex c \<and> (\<exists>w3. v3 = dash # w3 \<and>
     (\<exists>d v4. w3 = d @ v4 \<and> length d = 4 \<and> list_all is_hex d \<and> (\<exists>w4. v4 = dash # w4 \<and>
       length w4 = 12 \<and> list_all is_hex w4)))))))"
      by (intro exI conjI) (assumption | rule refl)+
  qed
qed

text \<open>
  Claim C8. \<open>validateKey\<close> strips the non-digits and classifies in a fixed order: 11
  digits left is CPF, 14 is CNPJ; otherwise the key itself is tested against the email
  pattern, then \<open>+55\<close> and 10 or 11 digits, then the 8-4-4-4-12 hexadecimal pattern in
  either case; otherwise the key is invalid, with an error. The digit counts come first,
  whatever else the key matches.
\<close>

theorem validateKey_classification:
  "validateKey k =
     (if length (filter is_digit k) = 11
      then \<lparr>isValid = True, type = Some (str ''CPF''), error = None\<rparr>
      else if length (filter is_digit k) = 14
      then \<lparr>isValid = True, type = Some (str ''CNPJ''), error = None\<rparr>
      else if spec_email k then \<lparr>isValid = True, type = Some (str ''EMAIL''), error = None\<rparr>
      else if spec_phone k then \<lparr>isValid = True, type = Some (str ''PHONE''), error = None\<rparr>
      else if spec_uuid k then \<lparr>isValid = True, type = Some (str ''RANDOM''), error = None\<rparr>
      else \<lparr>isValid = False, type = None,
             error = Some (if k = [] then str ''Key must be a non-empty string''
                           else str ''Invalid PIX key format'')\<rparr>)"
proof (cases "k = []")
  case True
  then show ?thesis
    by (simp add: validateKey_def spec_email_def spec_phone_def spec_uuid_def str_def)
next
  case False
  then show ?thesis
    by (simp add: validateKey_def test_digits test_email test_phone test_uuid)
qed

theorem validateKey_classification_witness:
  "validateKey (str ''529.982.247-25'') = \<lparr>isValid = True, type = Some (str ''CPF''), error = None\<rparr>
   \<and> validateKey (str ''12345678901@x.y'') = \<lparr>isValid = True, type = Some (str ''CPF''), error = None\<rparr>"
  using validateKey_classification [of "str ''529.982.247-25''"]
    validateKey_classification [of "str ''12345678901@x.y''"]
  by (simp add: is_digit_def str_def)

section \<open>The end-to-end vector\<close>

lemmas float_eval = parseFloat_def starts_with_def parse_exponent_def round_to_double_def
  floor_log2_def bitlen.simps round_half_even_def toFixed_def

lemma amount_vector: "toFixed (parseFloat (str ''123.45'')) 2 = str ''123.45''"
  by (simp add: float_eval js_eval)

lemma upper_vector:
  "toUpperCase U (str ''WISEFOX'') = str ''WISEFOX''"
  "toUpperCase U (str ''BELO HORIZONTE'') = str ''BELO HORIZONTE''"
  by (simp_all add: toUpperCase_def toUpperCase_ascii_def is_ascii_def ascii_upper_def str_def)

lemma str_simps: "str [] = []" "str (c # cs) \<noteq> []" "length (str s) = length s"
  by (simp_all add: str_def)

lemma createPayment_vector: "createPayment U vector_params = Inr [''value'' \<mapsto> Arr vector_document]"
  unfolding createPayment_def vector_params_def vector_document_def
  by (simp add: truthy_def splice_insert_def additionalData_def amount_vector upper_vector str_simps)


lemma vector_wire_split: "vector_wire = vector_body @ str ''0D3F''"
  by (simp add: vector_wire_def vector_body_def str_def)

lemma vector_body_crc: "calculateCRC16 vector_body = str ''0D3F''"
  by (simp add: vector_body_def crc_eval)

lemma vector_encoded_fields:
  "concat (map (\<lambda>f. if fid f \<noteq> [] then encodeField (fid f) (fvalue f) else [])
             (filter (\<lambda>f. fid f \<noteq> str ''63'') vector_document)) @ str ''6304'' = vector_body"
  by (simp add: vector_document_def vector_body_def formatLength_def js_eval)

lemma encode_vector: "encode (Some [''value'' \<mapsto> Arr vector_document]) = Inr vector_wire"
  unfolding encode_def
  by (simp add: Let_def vector_encoded_fields vector_body_crc vector_wire_split)

lemma vector_slices:
  "slice vector_wire 0 (Some (- 4)) = vector_body" "slice vector_wire (- 4) None = str ''0D3F''"
  "vector_wire \<noteq> []"
  by (simp_all add: vector_wire_def vector_body_def slice_def str_def)

section \<open>The scan reads back what the encoder writes\<close>

lemma substr_at:
  assumes "length b = n"
  shows "substr (a @ b @ c) (Num (int (length a))) (Num (int n)) = b"
  using assms by (simp add: substr_def Let_def)

lemma digit_char_facts:
  assumes "d < 10"
  shows "is_digit (digit_char d)" "\<not> is_whitespace (digit_char d)"
    "digit_char d \<noteq> 43" "digit_char d \<noteq> 45"
    "unat (digit_char d) - 48 = d"
proof -
  from assms have "d = 0 \<or> d = 1 \<or> d = 2 \<or> d = 3 \<or> d = 4 \<or> d = 5 \<or> d = 6 \<or> d = 7 \<or> d = 8 \<or> d = 9"
    by arith
  then show "is_digit (digit_char d)" "\<not> is_whitespace (digit_char d)"
    "digit_char d \<noteq> 43" "digit_char d \<noteq> 45"
    "unat (digit_char d) - 48 = d"
    by (auto simp add: digit_char_def is_digit_def is_whitespace_def)
qed

lemma formatLength_two:
  assumes "n \<le> 99"
  shows "formatLength (Num (int n)) 2 = [digit_char (n div 10), digit_char (n mod 10)]"
proof (cases "n < 10")
  case True
  then have "digits_of 10 n = [digit_char n]" by (subst digits_of.simps) simp
  moreover have "digit_char 0 = of_char CHR ''0''" by (simp add: digit_char_def)
  ultimately show ?thesis using True
    by (simp add: formatLength_def int_toString_def padStart_def del: of_char_Char)
next
  case False
  with assms have a: "n div 10 < 10" "\<not> n < 10" by simp_all
  then have "digits_of 10 (n div 10) = [digit_char (n div 10)]" by (subst digits_of.simps) simp
  with a have "digits_of 10 n = [digit_char (n div 10), digit_char (n mod 10)]"
    by (subst digits_of.simps) simp
  then show ?thesis
    by (simp add: formatLength_def int_toString_def padStart_def)
qed

lemma length_formatLength: "n \<le> 99 \<Longrightarrow> length (formatLength (Num (int n)) 2) = 2"
  by (simp add: formatLength_two)

lemma parseInt_formatLength:
  assumes "n \<le> 99"
  shows "parseInt (formatLength (Num (int n)) 2) = Num (int n)"
proof -
  from assms have d: "n div 10 < 10" "n mod 10 < 10" by simp_all
  show ?thesis
    unfolding formatLength_two [OF assms] parseInt_def
    by (simp add: Let_def digits_value_def digit_char_facts [OF d(1)] digit_char_facts [OF d(2)])
qed


lemma scan_step:
  assumes i: "length i = 2" and c: "length c \<le> 99" and ne: "c \<noteq> [] \<or> rest \<noteq> []"
  shows "decodeFields_loop (pre @ tuple i c @ rest) (Num (int (length pre))) acc =
     (if i \<in> set [str ''26'', str ''62''] then
        Option.bind (decodeFields_loop c (Num 0) [])
          (\<lambda>nested. decodeFields_loop (pre @ tuple i c @ rest) (Num (int (length (pre @ tuple i c))))
             (acc @ [Field i None (formatLength (Num (int (length c))) 2) (Arr nested)]))
      else decodeFields_loop (pre @ tuple i c @ rest) (Num (int (length (pre @ tuple i c))))
             (acc @ [Field i None (formatLength (Num (int (length c))) 2) (Str c)]))"
proof -
  define L where "L = formatLength (Num (int (length c))) 2"
  define s where "s = pre @ tuple i c @ rest"
  have lenL: "length L = 2" unfolding L_def using c by (rule length_formatLength)
  have s1: "s = pre @ i @ (L @ c @ rest)" by (simp add: s_def tuple_def L_def)
  have s2: "s = (pre @ i) @ L @ (c @ rest)" by (simp add: s1)
  have s3: "s = (pre @ i @ L) @ c @ rest" by (simp add: s1)
  have len_s: "length s = length pre + 4 + length c + length rest"
    by (simp add: s1 i lenL)
  from ne have "0 < length c + length rest" by auto
  then have "int (length pre) < int (length s) - 4"
    unfolding len_s by linarith
  then have guard: "number_less (Num (int (length pre))) (Num (int (length s) - 4))"
    by simp
  have f_id: "substr s (Num (int (length pre))) (Num 2) = i"
    using substr_at [OF i, of pre "L @ c @ rest"] by (simp add: s1)
  have f_len: "substr s (number_plus (Num (int (length pre))) (Num 2)) (Num 2) = L"
    using substr_at [OF lenL, of "pre @ i" "c @ rest"] by (simp add: s1 i add.commute)
  have f_int: "parseInt L = Num (int (length c))"
    unfolding L_def using c by (rule parseInt_formatLength)
  have f_val: "substr s (number_plus (Num (int (length pre))) (Num 4)) (Num (int (length c))) = c"
    using substr_at [OF refl, of "pre @ i @ L" c rest] by (simp add: s1 i lenL add.commute)
  have pos: "number_plus (Num (int (length pre))) (number_plus (Num 4) (Num (int (length c))))
      = Num (int (length (pre @ tuple i c)))"
    by (simp add: tuple_def i lenL [unfolded L_def])
  have pad: "padStart (number_toString (Num (int (length c)))) 2 (of_char CHR ''0'') = L"
    by (simp only: L_def formatLength_def)
  show ?thesis
    unfolding s_def [symmetric] L_def [symmetric]
    by (subst decodeFields_loop.simps [of s "Num (int (length pre))" acc])
      (simp only: guard if_True Let_def f_id f_len f_int f_val pos [unfolded s_def [symmetric]] pad)
qed

lemma scan_end: "decodeFields_loop s (Num (int (length s))) acc = Some acc"
  by (subst decodeFields_loop.simps) simp


lemma length_tuple: "length i = 2 \<Longrightarrow> tuple i c \<noteq> []"
  by (auto simp add: tuple_def)

lemma scan_items:
  assumes "list_all item_ok items" and "items = [] \<or> fst (snd (last items)) \<noteq> []"
  shows "decodeFields_loop (pre @ concat (map item_wire items)) (Num (int (length pre))) acc
         = Some (acc @ map item_field items)"
  using assms
proof (induction items arbitrary: pre acc)
  case Nil
  show ?case using scan_end [of pre acc] by simp
next
  case (Cons it items)
  obtain i c v where it: "it = (i, c, v)" by (cases it)
  define rest where "rest = concat (map item_wire items)"
  from Cons.prems(1) it have "item_ok (i, c, v)" and oks: "list_all item_ok items"
    by simp_all
  then have ok: "length i = 2" "length c \<le> 99"
    and v: "if i \<in> set [str ''26'', str ''62'']
            then \<exists>nested. decodeFields_loop c (Num 0) [] = Some nested \<and> v = Arr nested
            else v = Str c"
    by (simp_all add: item_ok_def del: set_simps)
  have ne: "c \<noteq> [] \<or> rest \<noteq> []"
  proof (cases items)
    case Nil
    with Cons.prems(2) it show ?thesis by simp
  next
    case (Cons it' items')
    obtain i' c' v' where "it' = (i', c', v')" by (cases it')
    with oks Cons have "item_ok (i', c', v')" by simp
    then have "length i' = 2" by (simp add: item_ok_def)
    then have "tuple i' c' \<noteq> []" by (rule length_tuple)
    with Cons \<open>it' = (i', c', v')\<close> show ?thesis by (simp add: rest_def item_wire_def)
  qed
  have last: "items = [] \<or> fst (snd (last items)) \<noteq> []"
    using Cons.prems(2) by (cases items) simp_all
  have step: "decodeFields_loop (pre @ tuple i c @ rest) (Num (int (length pre))) acc
      = decodeFields_loop ((pre @ tuple i c) @ rest) (Num (int (length (pre @ tuple i c))))
          (acc @ [item_field it])"
  proof (cases "i \<in> set [str ''26'', str ''62'']")
    case True
    with v obtain nested where "decodeFields_loop c (Num 0) [] = Some nested" "v = Arr nested"
      by auto
    with True show ?thesis
      by (simp add: scan_step [OF ok ne] it item_field_def del: set_simps)
  next
    case False
    with v have "v = Str c" by simp
    with False show ?thesis
      by (simp add: scan_step [OF ok ne] it item_field_def del: set_simps)
  qed
  have "decodeFields_loop (pre @ concat (map item_wire (it # items))) (Num (int (length pre))) acc
      = decodeFields_loop (pre @ tuple i c @ rest) (Num (int (length pre))) acc"
    by (simp add: it item_wire_def rest_def)
  also note step
  also have "decodeFields_loop ((pre @ tuple i c) @ rest) (Num (int (length (pre @ tuple i c))))
          (acc @ [item_field it]) = Some ((acc @ [item_field it]) @ map item_field items)"
    unfolding rest_def by (rule Cons.IH [OF oks last])
  finally show ?case by simp
qed


lemma encodeField_tuple: "encodeField (fid f) (fvalue f) = item_wire (top_item f)"
proof (cases "fvalue f")
  case (Str v)
  then show ?thesis by (simp add: top_item_def item_wire_def tuple_def)
next
  case (Arr subs)
  have "(\<lambda>subField. if fid subField \<noteq> [] then
              (let subValue = (case fvalue subField of
                                 Arr vs \<Rightarrow> concat (map (\<lambda>v. encodeField (fid v) (fvalue v)) vs)
                               | Str s \<Rightarrow> s);
                   subLength = formatLength (Num (int (length subValue))) 2
               in fid subField @ subLength @ subValue)
            else [])
      = (\<lambda>sub. if fid sub \<noteq> [] then tuple (fid sub) (subValue_of sub) else [])"
    by (rule ext) (simp add: tuple_def subValue_of_def Let_def)
  then have "encodeField (fid f) (Arr subs) = tuple (fid f) (nestedData_of subs)"
    unfolding encodeField.simps nestedData_of_def tuple_def Let_def by simp
  with Arr show ?thesis by (simp add: top_item_def item_wire_def)
qed

lemma nested_scan:
  assumes "list_all wf_sub subs" and "subs = [] \<or> subValue_of (last subs) \<noteq> []"
  shows "decodeFields_loop (nestedData_of subs) (Num 0) [] = Some (map scanned_sub subs)"
proof -
  have ids: "list_all (\<lambda>sub. fid sub \<noteq> []) subs"
    using assms(1) by (induction subs) (auto simp add: wf_sub_def)
  then have w: "nestedData_of subs = concat (map item_wire (map sub_item subs))"
    by (induction subs) (simp_all add: nestedData_of_def item_wire_def sub_item_def)
  have ok: "list_all item_ok (map sub_item subs)"
    using assms(1) by (induction subs) (simp_all add: wf_sub_def item_ok_def sub_item_def)
  have l: "map sub_item subs = [] \<or> fst (snd (last (map sub_item subs))) \<noteq> []"
    using assms(2) by (auto simp add: last_map sub_item_def)
  have f: "map item_field (map sub_item subs) = map scanned_sub subs"
    by (simp add: item_field_def sub_item_def scanned_sub_def)
  from scan_items [OF ok l, of "[]" "[]"]
  have "decodeFields_loop (concat (map item_wire (map sub_item subs))) (Num 0) []
        = Some (map item_field (map sub_item subs))" by simp
  then show ?thesis unfolding w f .
qed

lemma top_item_ok:
  assumes "wf_field f"
  shows "item_ok (top_item f)" and "item_field (top_item f) = scanned_field f"
proof -
  show "item_field (top_item f) = scanned_field f"
    by (cases "fvalue f") (simp_all add: item_field_def top_item_def scanned_field_def)
  show "item_ok (top_item f)"
  proof (cases "fvalue f")
    case (Str v)
    with assms show ?thesis
      by (simp add: wf_field_def item_ok_def top_item_def del: set_simps)
  next
    case (Arr subs)
    with assms have a: "fid f \<in> set [str ''26'', str ''62'']" "length (fid f) = 2"
      "list_all wf_sub subs" "length (nestedData_of subs) \<le> 99"
      "subs = [] \<or> subValue_of (last subs) \<noteq> []"
      by (simp_all add: wf_field_def del: set_simps)
    from nested_scan [OF a(3) a(5)] a Arr show ?thesis
      by (simp add: item_ok_def top_item_def del: set_simps)
  qed
qed

lemma format_four: "formatLength (Num 4) 2 = str ''04''"
  by (simp add: formatLength_def js_eval)

lemma top_scan:
  assumes "list_all wf_field fs" and "length crc = 4"
  shows "decodeFields (wire_body fs @ crc)
         = Some (map scanned_field fs @ [Field (str ''63'') None (str ''04'') (Str crc)])"
proof -
  define items where "items = map top_item fs @ [(str ''63'', crc, Str crc)]"
  have c63: "item_ok (str ''63'', crc, Str crc)"
    using assms(2) by (simp add: item_ok_def str_def)
  have ok: "list_all item_ok items"
    using assms(1) c63 unfolding items_def
    by (induction fs) (simp_all add: top_item_ok(1))
  have l: "items = [] \<or> fst (snd (last items)) \<noteq> []"
    using assms(2) by (auto simp add: items_def)
  have "tuple (str ''63'') crc = str ''6304'' @ crc"
    using assms(2) format_four by (simp add: tuple_def str_def)
  then have w: "wire_body fs @ crc = concat (map item_wire items)"
    unfolding wire_body_def items_def encodeField_tuple
    by (simp add: item_wire_def [of "(str ''63'', crc, Str crc)"] comp_def)
  have "map item_field (map top_item fs) = map scanned_field fs"
    using assms(1) by (induction fs) (simp_all add: top_item_ok(2))
  then have f: "map item_field items = map scanned_field fs @ [Field (str ''63'') None (str ''04'') (Str crc)]"
    using assms(2) format_four by (simp add: items_def item_field_def)
  from scan_items [OF ok l, of "[]" "[]"]
  have "decodeFields_loop (concat (map item_wire items)) (Num 0) [] = Some (map item_field items)"
    by simp
  then show ?thesis unfolding decodeFields_def w f .
qed

lemma encode_wf:
  assumes "list_all wf_field fs"
  shows "encode (Some [''value'' \<mapsto> Arr fs]) = Inr (wire_body fs @ calculateCRC16 (wire_body fs))"
proof -
  have a: "filter (\<lambda>f. fid f \<noteq> str ''63'') fs = fs"
    using assms by (induction fs) (simp_all add: wf_field_def)
  have b: "map (\<lambda>f. if fid f \<noteq> [] then encodeField (fid f) (fvalue f) else []) fs
      = map (\<lambda>f. encodeField (fid f) (fvalue f)) fs"
    using assms by (induction fs) (auto simp add: wf_field_def)
  show ?thesis
    by (simp add: encode_def Let_def a b wire_body_def)
qed

lemma slice_last4:
  "slice s (- 4) None = drop (length s - 4) s" "slice s 0 (Some (- 4)) = take (length s - 4) s"
  by (auto simp add: slice_def Let_def max_def nat_diff_distrib')

lemma decode_wf:
  assumes "list_all wf_field fs"
  shows "decode (wire_body fs @ calculateCRC16 (wire_body fs))
     = Some (Inr [''value'' \<mapsto> Arr (map describe_field
          (map scanned_field fs @ [Field (str ''63'') None (str ''04'') (Str (calculateCRC16 (wire_body fs)))]))])"
proof -
  define crc where "crc = calculateCRC16 (wire_body fs)"
  have len: "length crc = 4" by (simp add: crc_def length_calculateCRC16)
  then have ne: "wire_body fs @ crc \<noteq> []" by auto
  from len have s: "slice (wire_body fs @ crc) 0 (Some (- 4)) = wire_body fs"
    "slice (wire_body fs @ crc) (- 4) None = crc"
    by (simp_all add: slice_last4)
  show ?thesis
    unfolding crc_def [symmetric] decode_def Let_def s
    using ne top_scan [OF assms len] by (simp add: crc_def)
qed

lemma vector_wf: "list_all wf_field vector_document"
  by (simp add: vector_document_def wf_field_def wf_sub_def nestedData_of_def subValue_of_def
      tuple_def formatLength_def js_eval)

lemma vector_wire_body: "wire_body vector_document = vector_body"
  by (simp add: wire_body_def vector_document_def vector_body_def formatLength_def js_eval)

lemma vector_scanned:
  "map describe_field (map scanned_field vector_document
      @ [Field (str ''63'') None (str ''04'') (Str (str ''0D3F''))]) = vector_decoded"
  by (simp add: vector_document_def vector_decoded_def scanned_field_def scanned_sub_def
      describe_field_def describe_subField_def descriptionsMap_def nestedData_of_def subValue_of_def
      tuple_def formatLength_def js_eval)

lemma decode_vector: "decode vector_wire = Some (Inr [''value'' \<mapsto> Arr vector_decoded])"
  using decode_wf [OF vector_wf]
  by (simp only: vector_wire_body vector_body_crc vector_scanned vector_wire_split [symmetric])

text \<open>
  Claim C1. The parameters of the end-to-end vector give the document \<open>vector_document\<close>,
  whatever the case conversion does outside ASCII; \<open>encode\<close> of that document is
  exactly the string \<open>vector_wire\<close>; and \<open>decode\<close> of that string returns the list
  \<open>vector_decoded\<close>, whose only top-level field of id 54 has the value \<open>123.45\<close> and
  whose only top-level field of id 59 has the value \<open>WISEFOX\<close>.
\<close>

theorem end_to_end_vector:
  "createPayment U vector_params = Inr [''value'' \<mapsto> Arr vector_document]
   \<and> encode (Some [''value'' \<mapsto> Arr vector_document]) = Inr vector_wire
   \<and> decode vector_wire = Some (Inr [''value'' \<mapsto> Arr vector_decoded])
   \<and> map fvalue (filter (\<lambda>f. fid f = str ''54'') vector_decoded) = [Str (str ''123.45'')]
   \<and> map fvalue (filter (\<lambda>f. fid f = str ''59'') vector_decoded) = [Str (str ''WISEFOX'')]"
proof -
  have "map fvalue (filter (\<lambda>f. fid f = str ''54'') vector_decoded) = [Str (str ''123.45'')]"
    by (simp add: vector_decoded_def str_def)
  moreover have "map fvalue (filter (\<lambda>f. fid f = str ''59'') vector_decoded) = [Str (str ''WISEFOX'')]"
    by (simp add: vector_decoded_def str_def)
  ultimately show ?thesis
    using createPayment_vector encode_vector decode_vector by simp
qed

theorem end_to_end_vector_witness:
  "\<forall>U. truthy (key vector_params) \<and> truthy (merchantName vector_params)
     \<and> truthy (merchantCity vector_params)
     \<and> createPayment U vector_params = Inr [''value'' \<mapsto> Arr vector_document]
     \<and> encode (Some [''value'' \<mapsto> Arr vector_document]) = Inr vector_wire
     \<and> decode vector_wire = Some (Inr [''value'' \<mapsto> Arr vector_decoded])"
proof
  fix U
  show "truthy (key vector_params) \<and> truthy (merchantName vector_params)
     \<and> truthy (merchantCity vector_params)
     \<and> createPayment U vector_params = Inr [''value'' \<mapsto> Arr vector_document]
     \<and> encode (Some [''value'' \<mapsto> Arr vector_document]) = Inr vector_wire
     \<and> decode vector_wire = Some (Inr [''value'' \<mapsto> Arr vector_decoded])"
    using end_to_end_vector [of U] by (simp add: vector_params_def truthy_def str_def)
qed

end
